theory Spec2Isabelle
  imports Main
begin

section \<open>boost/serialization/singleton.hpp: the default design\<close>

text \<open>
  The header keeps all of its state in statics: one boolean behind
  \<^verbatim>\<open>singleton_module::get_lock()\<close>, and for every type \<^verbatim>\<open>T\<close> that
  \<^verbatim>\<open>singleton<T>\<close> is instantiated with, the function-local static \<^verbatim>\<open>t\<close> of
  \<^verbatim>\<open>get_instance()\<close>, the flag \<^verbatim>\<open>singleton_wrapper<T>::m_is_destroyed\<close> and the
  reference member \<^verbatim>\<open>singleton<T>::instance\<close>. The model passes these statics of
  one load unit around as a record; a C++ type is a value of the type variable
  \<open>'ty\<close>, an object of such a type a value of \<open>'v\<close>, and the default constructor
  of each type a function \<open>ctor :: 'ty \<Rightarrow> 'v\<close> handed to whatever may construct.
\<close>

subsection \<open>Assertions\<close>

datatype build = Debug | Release

datatype fatal = Assertion_failed string

text \<open>
  Modelled from the spec: the macro \<^verbatim>\<open>BOOST_ASSERT\<close> comes from
  \<^verbatim>\<open>boost/assert.hpp\<close>, which is only included here. A false condition is an
  immediate fatal stop in a debug-oriented build and is skipped in an optimised
  one. The failed expression is kept as the macro's message keeps it.
\<close>

definition BOOST_ASSERT :: "build \<Rightarrow> bool \<Rightarrow> string \<Rightarrow> fatal + unit" where
  "BOOST_ASSERT b expr msg =
     (if b = Debug \<and> \<not> expr then Inl (Assertion_failed msg) else Inr ())"

abbreviation not_locked_expr :: string where
  "not_locked_expr \<equiv> ''! is_locked()''"

abbreviation not_destroyed_expr :: string where
  "not_destroyed_expr \<equiv> ''! detail::singleton_wrapper< T >::m_is_destroyed''"

subsection \<open>The statics of one load unit\<close>

text \<open>
  \<open>Static_t T\<close> is the address of the function-local static \<^verbatim>\<open>t\<close> of
  \<^verbatim>\<open>singleton<T>::get_instance()\<close>: storage that the load unit reserves once for
  each instantiation.
\<close>

datatype 'ty ref = Static_t 'ty

text \<open>
  \<open>static_t s T = None\<close> says that control has not yet passed the declaration of
  \<^verbatim>\<open>t\<close>; \<open>Some v\<close> holds the object built there. \<open>constructions\<close> counts the runs
  of the constructor of each type, which is how a constructor with an effect
  would observe them. \<open>instance_ref\<close> is the reference member \<^verbatim>\<open>instance\<close>, unbound
  until its dynamic initialisation has run.
\<close>

record ('ty, 'v) statics =
  lock_gate :: bool
  static_t :: "'ty \<Rightarrow> 'v option"
  m_is_destroyed :: "'ty \<Rightarrow> bool"
  instance_ref :: "'ty \<Rightarrow> 'ty ref option"
  constructions :: "'ty \<Rightarrow> nat"

text \<open>
  Modelled from the spec: \<^verbatim>\<open>get_lock()\<close> is declared in \<^verbatim>\<open>singleton_module\<close> and
  defined in no file of the sources. The spec gives it as one process-wide
  boolean, \<open>false\<close> by default; the function returns a reference to it, so it
  is both read (\<open>get_lock\<close>) and assigned through (\<open>get_lock_assign\<close>). The
  other fields start as the header initialises them: \<^verbatim>\<open>m_is_destroyed = false\<close>,
  nothing constructed, nothing bound.
\<close>

definition startup :: "('ty, 'v) statics" where
  "startup = \<lparr>lock_gate = False, static_t = (\<lambda>_. None), m_is_destroyed = (\<lambda>_. False),
     instance_ref = (\<lambda>_. None), constructions = (\<lambda>_. 0)\<rparr>"

definition get_lock :: "('ty, 'v) statics \<Rightarrow> bool" where
  "get_lock s = lock_gate s"

definition get_lock_assign :: "bool \<Rightarrow> ('ty, 'v) statics \<Rightarrow> ('ty, 'v) statics" where
  "get_lock_assign v s = s\<lparr>lock_gate := v\<rparr>"

subsection \<open>The class \<^verbatim>\<open>singleton_module\<close>\<close>

definition lock :: "('ty, 'v) statics \<Rightarrow> ('ty, 'v) statics" where
  "lock s = get_lock_assign True s"

definition unlock :: "('ty, 'v) statics \<Rightarrow> ('ty, 'v) statics" where
  "unlock s = get_lock_assign False s"

definition is_locked :: "('ty, 'v) statics \<Rightarrow> bool" where
  "is_locked s = get_lock s"

subsection \<open>The class \<^verbatim>\<open>detail::singleton_wrapper\<close>\<close>

text \<open>The destructor \<^verbatim>\<open>~singleton_wrapper()\<close>.\<close>

definition singleton_wrapper_dtor :: "'ty \<Rightarrow> ('ty, 'v) statics \<Rightarrow> ('ty, 'v) statics" where
  "singleton_wrapper_dtor T s = s\<lparr>m_is_destroyed := (m_is_destroyed s)(T := True)\<rparr>"

text \<open>
  The declaration \<^verbatim>\<open>static detail::singleton_wrapper< T > t;\<close>: the object is
  constructed the first time control passes it, and never again.
\<close>

definition declare_static_t :: "('ty \<Rightarrow> 'v) \<Rightarrow> 'ty \<Rightarrow> ('ty, 'v) statics \<Rightarrow> ('ty, 'v) statics" where
  "declare_static_t ctor T s =
     (case static_t s T of
        None \<Rightarrow> s\<lparr>static_t := (static_t s)(T \<mapsto> ctor T),
                  constructions := (constructions s)(T := Suc (constructions s T))\<rparr>
      | Some _ \<Rightarrow> s)"

text \<open>
  What the host does with \<^verbatim>\<open>t\<close> when the load unit is torn down: an object that
  was constructed is destroyed, one that never was has no destructor to run.
\<close>

definition static_teardown :: "'ty \<Rightarrow> ('ty, 'v) statics \<Rightarrow> ('ty, 'v) statics" where
  "static_teardown T s =
     (case static_t s T of None \<Rightarrow> s | Some _ \<Rightarrow> singleton_wrapper_dtor T s)"

subsection \<open>The class \<^verbatim>\<open>singleton\<close>\<close>

definition use :: "'ty ref option \<Rightarrow> unit" where
  "use p = ()"

definition get_instance ::
  "build \<Rightarrow> ('ty \<Rightarrow> 'v) \<Rightarrow> 'ty \<Rightarrow> ('ty, 'v) statics \<Rightarrow> fatal + ('ty ref \<times> ('ty, 'v) statics)" where
  "get_instance b ctor T s =
     (let s' = declare_static_t ctor T s in
      case BOOST_ASSERT b (\<not> m_is_destroyed s' T) not_destroyed_expr of
        Inl e \<Rightarrow> Inl e
      | Inr _ \<Rightarrow> (let _ = use (instance_ref s' T) in Inr (Static_t T, s')))"

definition get_mutable_instance ::
  "build \<Rightarrow> ('ty \<Rightarrow> 'v) \<Rightarrow> 'ty \<Rightarrow> ('ty, 'v) statics \<Rightarrow> fatal + ('ty ref \<times> ('ty, 'v) statics)" where
  "get_mutable_instance b ctor T s =
     (case BOOST_ASSERT b (\<not> is_locked s) not_locked_expr of
        Inl e \<Rightarrow> Inl e
      | Inr _ \<Rightarrow> get_instance b ctor T s)"

definition get_const_instance ::
  "build \<Rightarrow> ('ty \<Rightarrow> 'v) \<Rightarrow> 'ty \<Rightarrow> ('ty, 'v) statics \<Rightarrow> fatal + ('ty ref \<times> ('ty, 'v) statics)" where
  "get_const_instance b ctor T s = get_instance b ctor T s"

definition is_destroyed :: "'ty \<Rightarrow> ('ty, 'v) statics \<Rightarrow> bool" where
  "is_destroyed T s = m_is_destroyed s T"

text \<open>
  The dynamic initialisation of the member:
  \<^verbatim>\<open>T & singleton< T >::instance = singleton< T >::get_instance();\<close>
\<close>

definition instance_init ::
  "build \<Rightarrow> ('ty \<Rightarrow> 'v) \<Rightarrow> 'ty \<Rightarrow> ('ty, 'v) statics \<Rightarrow> fatal + ('ty, 'v) statics" where
  "instance_init b ctor T s =
     (case get_instance b ctor T s of
        Inl e \<Rightarrow> Inl e
      | Inr (r, s') \<Rightarrow> Inr (s'\<lparr>instance_ref := (instance_ref s')(T \<mapsto> r)\<rparr>))"

subsection \<open>Executions of a load unit\<close>

text \<open>
  What can happen to the statics, one event at a time: a call of one of the six
  public functions, the initialisation of \<^verbatim>\<open>instance\<close> before the entry point,
  a client writing the object through a mutable reference it was given, and the
  host destroying \<^verbatim>\<open>t\<close>. A fatal stop ends the execution.
\<close>

datatype ('ty, 'v) event =
    Call_lock
  | Call_unlock
  | Call_is_locked
  | Call_get_mutable_instance 'ty
  | Call_get_const_instance 'ty
  | Call_is_destroyed 'ty
  | Init_instance 'ty
  | Write_through 'ty 'v
  | Teardown 'ty

datatype 'ty ret = Ret_void | Ret_bool bool | Ret_ref "'ty ref"

definition write_through :: "'ty \<Rightarrow> 'v \<Rightarrow> ('ty, 'v) statics \<Rightarrow> ('ty, 'v) statics" where
  "write_through T v s =
     (case static_t s T of None \<Rightarrow> s | Some _ \<Rightarrow> s\<lparr>static_t := (static_t s)(T \<mapsto> v)\<rparr>)"

definition returning ::
  "fatal + ('ty ref \<times> ('ty, 'v) statics) \<Rightarrow> fatal + ('ty ret \<times> ('ty, 'v) statics)" where
  "returning x = (case x of Inl e \<Rightarrow> Inl e | Inr (r, s') \<Rightarrow> Inr (Ret_ref r, s'))"

fun exec ::
  "build \<Rightarrow> ('ty \<Rightarrow> 'v) \<Rightarrow> ('ty, 'v) event \<Rightarrow> ('ty, 'v) statics \<Rightarrow> fatal + ('ty ret \<times> ('ty, 'v) statics)" where
  "exec b ctor Call_lock s = Inr (Ret_void, lock s)"
| "exec b ctor Call_unlock s = Inr (Ret_void, unlock s)"
| "exec b ctor Call_is_locked s = Inr (Ret_bool (is_locked s), s)"
| "exec b ctor (Call_get_mutable_instance T) s = returning (get_mutable_instance b ctor T s)"
| "exec b ctor (Call_get_const_instance T) s = returning (get_const_instance b ctor T s)"
| "exec b ctor (Call_is_destroyed T) s = Inr (Ret_bool (is_destroyed T s), s)"
| "exec b ctor (Init_instance T) s =
     (case instance_init b ctor T s of Inl e \<Rightarrow> Inl e | Inr s' \<Rightarrow> Inr (Ret_void, s'))"
| "exec b ctor (Write_through T v) s = Inr (Ret_void, write_through T v s)"
| "exec b ctor (Teardown T) s = Inr (Ret_void, static_teardown T s)"

fun run ::
  "build \<Rightarrow> ('ty \<Rightarrow> 'v) \<Rightarrow> ('ty, 'v) event list \<Rightarrow> ('ty, 'v) statics
     \<Rightarrow> fatal + ('ty ret list \<times> ('ty, 'v) statics)" where
  "run b ctor [] s = Inr ([], s)"
| "run b ctor (c # cs) s =
     (case exec b ctor c s of
        Inl e \<Rightarrow> Inl e
      | Inr (r, s') \<Rightarrow>
          (case run b ctor cs s' of Inl e \<Rightarrow> Inl e | Inr (rs, s'') \<Rightarrow> Inr (r # rs, s'')))"

text \<open>The events that reach \<^verbatim>\<open>get_instance()\<close> of a type.\<close>

fun touches :: "'ty \<Rightarrow> ('ty, 'v) event \<Rightarrow> bool" where
  "touches T (Call_get_mutable_instance U) = (U = T)"
| "touches T (Call_get_const_instance U) = (U = T)"
| "touches T (Init_instance U) = (U = T)"
| "touches T _ = False"

section \<open>The variant under \<^verbatim>\<open>USE_UNM_SINGLETON\<close>\<close>







subsection \<open>A call that nothing interrupts\<close>










subsection \<open>Calls that overlap\<close>







section \<open>Auxiliary notions for the statements\<close>

text \<open>
  The answers that the calls of \<^verbatim>\<open>is_destroyed()\<close> for one type got in an
  execution, given its events and their results.
\<close>

definition answers :: "'ty \<Rightarrow> ('ty, 'v) event list \<Rightarrow> 'ty ret list \<Rightarrow> 'ty ret list" where
  "answers T cs rs = map snd (filter (\<lambda>(c, r). c = Call_is_destroyed T) (zip cs rs))"

text \<open>The construction count of a type agrees with the state of its \<^verbatim>\<open>t\<close>.\<close>

definition counted :: "'ty \<Rightarrow> ('ty, 'v) statics \<Rightarrow> bool" where
  "counted T s = (constructions s T = (if static_t s T = None then 0 else 1))"


text \<open>
  Concrete statics over the types \<open>0, 1, \<dots>\<close> with integer objects, as in the
  scenario \<^verbatim>\<open>Counter{ int n = 0; }\<close>: the default constructor, the state after the
  first access to type \<open>0\<close>, and that state after the teardown of its wrapper.
\<close>

definition Counter :: "nat \<Rightarrow> int" where
  "Counter T = 0"

definition accessed :: "(nat, int) statics" where
  "accessed = \<lparr>lock_gate = False, static_t = (\<lambda>_. None)(0 \<mapsto> 0),
     m_is_destroyed = (\<lambda>_. False), instance_ref = (\<lambda>_. None),
     constructions = (\<lambda>_. 0)(0 := Suc 0)\<rparr>"

definition torn_down :: "(nat, int) statics" where
  "torn_down = \<lparr>lock_gate = False, static_t = (\<lambda>_. None)(0 \<mapsto> 0),
     m_is_destroyed = (\<lambda>_. False)(0 := True), instance_ref = (\<lambda>_. None),
     constructions = (\<lambda>_. 0)(0 := Suc 0)\<rparr>"



section \<open>Facts about the operations\<close>

lemma declare_static_t_flag:
  "m_is_destroyed (declare_static_t ctor U s) = m_is_destroyed s"
  by (simp add: declare_static_t_def split: option.splits)

lemma declare_static_t_Some:
  "static_t (declare_static_t ctor U s) U \<noteq> None"
  by (simp add: declare_static_t_def split: option.splits)

lemma declare_static_t_again:
  "static_t s U \<noteq> None \<Longrightarrow> declare_static_t ctor U s = s"
  by (auto simp: declare_static_t_def split: option.splits)

lemma declare_static_t_set_gate:
  "declare_static_t ctor T (s\<lparr>lock_gate := g\<rparr>) = (declare_static_t ctor T s)\<lparr>lock_gate := g\<rparr>"
  by (simp add: declare_static_t_def split: option.splits)

lemma get_instance_eq:
  "get_instance b ctor T s =
     (if b = Debug \<and> m_is_destroyed s T then Inl (Assertion_failed not_destroyed_expr)
      else Inr (Static_t T, declare_static_t ctor T s))"
  by (simp add: get_instance_def BOOST_ASSERT_def Let_def declare_static_t_flag)

lemma get_instance_Inr:
  "get_instance b ctor U s = Inr (r, s') \<Longrightarrow> r = Static_t U \<and> s' = declare_static_t ctor U s"
  by (auto simp: get_instance_def BOOST_ASSERT_def Let_def split: if_splits)

lemma get_mutable_instance_Inr:
  "get_mutable_instance b ctor U s = Inr (r, s') \<Longrightarrow> r = Static_t U \<and> s' = declare_static_t ctor U s"
  by (auto simp: get_mutable_instance_def BOOST_ASSERT_def dest: get_instance_Inr split: if_splits)

lemma get_const_instance_Inr:
  "get_const_instance b ctor U s = Inr (r, s') \<Longrightarrow> r = Static_t U \<and> s' = declare_static_t ctor U s"
  by (auto simp: get_const_instance_def dest: get_instance_Inr)

lemma instance_init_Inr:
  "instance_init b ctor U s = Inr s' \<Longrightarrow>
     s' = (declare_static_t ctor U s)\<lparr>instance_ref := (instance_ref (declare_static_t ctor U s))(U \<mapsto> Static_t U)\<rparr>"
  by (auto simp: instance_init_def dest: get_instance_Inr split: sum.splits)

lemma exec_flag:
  "exec b ctor c s = Inr (r, s') \<Longrightarrow>
     m_is_destroyed s' T = (m_is_destroyed s T \<or> (c = Teardown T \<and> static_t s T \<noteq> None))"
  by (cases c)
    (auto simp: lock_def unlock_def get_lock_assign_def returning_def write_through_def
      static_teardown_def singleton_wrapper_dtor_def declare_static_t_flag
      dest!: get_mutable_instance_Inr get_const_instance_Inr instance_init_Inr
      split: sum.splits option.splits if_splits)

lemma run_keeps_flag:
  "run b ctor cs s = Inr (rs, s') \<Longrightarrow> m_is_destroyed s T \<Longrightarrow>
     m_is_destroyed s' T \<and> set (answers T cs rs) \<subseteq> {Ret_bool True}"
proof (induction cs arbitrary: s rs)
  case Nil
  then show ?case by (simp add: answers_def)
next
  case (Cons c cs)
  from Cons.prems(1) obtain r s1 rs1 where
    e: "exec b ctor c s = Inr (r, s1)" and t: "run b ctor cs s1 = Inr (rs1, s')" and rs: "rs = r # rs1"
    by (auto split: sum.splits)
  from e Cons.prems(2) have d1: "m_is_destroyed s1 T" by (simp add: exec_flag)
  from Cons.IH [OF t d1] have ih: "m_is_destroyed s' T" "set (answers T cs rs1) \<subseteq> {Ret_bool True}"
    by simp_all
  have "c = Call_is_destroyed T \<Longrightarrow> r = Ret_bool True"
    using e Cons.prems(2) by (auto simp: is_destroyed_def)
  with ih rs show ?case by (auto simp: answers_def)
qed

lemma run_flag_stays_clear:
  "run b ctor cs s = Inr (rs, s') \<Longrightarrow> \<not> m_is_destroyed s T \<Longrightarrow> Teardown T \<notin> set cs \<Longrightarrow>
     \<not> m_is_destroyed s' T \<and> set (answers T cs rs) \<subseteq> {Ret_bool False}"
proof (induction cs arbitrary: s rs)
  case Nil
  then show ?case by (simp add: answers_def)
next
  case (Cons c cs)
  from Cons.prems(1) obtain r s1 rs1 where
    e: "exec b ctor c s = Inr (r, s1)" and t: "run b ctor cs s1 = Inr (rs1, s')" and rs: "rs = r # rs1"
    by (auto split: sum.splits)
  from e Cons.prems(2,3) have d1: "\<not> m_is_destroyed s1 T" by (auto simp: exec_flag)
  from Cons.prems(3) have "Teardown T \<notin> set cs" by simp
  from Cons.IH [OF t d1 this] have ih: "\<not> m_is_destroyed s' T" "set (answers T cs rs1) \<subseteq> {Ret_bool False}"
    by simp_all
  have "c = Call_is_destroyed T \<Longrightarrow> r = Ret_bool False"
    using e Cons.prems(2) by (auto simp: is_destroyed_def)
  with ih rs show ?case by (auto simp: answers_def)
qed

lemma exec_keeps_object:
  "exec b ctor c s = Inr (r, s') \<Longrightarrow> static_t s T \<noteq> None \<Longrightarrow> static_t s' T \<noteq> None"
  by (cases c)
    (auto simp: lock_def unlock_def get_lock_assign_def returning_def write_through_def
      static_teardown_def singleton_wrapper_dtor_def declare_static_t_def
      dest!: get_mutable_instance_Inr get_const_instance_Inr instance_init_Inr
      split: sum.splits option.splits if_splits)

lemma run_keeps_object:
  "run b ctor cs s = Inr (rs, s') \<Longrightarrow> static_t s T \<noteq> None \<Longrightarrow> static_t s' T \<noteq> None"
proof (induction cs arbitrary: s rs)
  case Nil
  then show ?case by simp
next
  case (Cons c cs)
  from Cons.prems(1) obtain r s1 rs1 where
    e: "exec b ctor c s = Inr (r, s1)" and t: "run b ctor cs s1 = Inr (rs1, s')"
    by (auto split: sum.splits)
  from exec_keeps_object [OF e Cons.prems(2)] have "static_t s1 T \<noteq> None" .
  from Cons.IH [OF t this] show ?case .
qed

lemma exec_counted:
  "exec b ctor c s = Inr (r, s') \<Longrightarrow> counted T s \<Longrightarrow>
     counted T s' \<and> (static_t s' T = None) = (static_t s T = None \<and> \<not> touches T c)"
  by (cases c)
    (auto simp: counted_def lock_def unlock_def get_lock_assign_def returning_def
      write_through_def static_teardown_def singleton_wrapper_dtor_def declare_static_t_def
      dest!: get_mutable_instance_Inr get_const_instance_Inr instance_init_Inr
      split: sum.splits option.splits if_splits)

lemma run_counted:
  "run b ctor cs s = Inr (rs, s') \<Longrightarrow> counted T s \<Longrightarrow>
     counted T s' \<and> (static_t s' T = None) = (static_t s T = None \<and> \<not> (\<exists>c\<in>set cs. touches T c))"
proof (induction cs arbitrary: s rs)
  case Nil
  then show ?case by simp
next
  case (Cons c cs)
  from Cons.prems(1) obtain r s1 rs1 where
    e: "exec b ctor c s = Inr (r, s1)" and t: "run b ctor cs s1 = Inr (rs1, s')"
    by (auto split: sum.splits)
  note 1 = exec_counted [OF e Cons.prems(2)]
  from 1 have "counted T s1" by simp
  note 2 = Cons.IH [OF t this]
  from 1 2 show ?case by auto
qed

lemma exec_untouched:
  "exec b ctor c s = Inr (r, s') \<Longrightarrow> \<not> touches T c \<Longrightarrow>
     static_t s T = None \<and> \<not> m_is_destroyed s T \<Longrightarrow>
     static_t s' T = None \<and> \<not> m_is_destroyed s' T"
  by (cases c)
    (auto simp: lock_def unlock_def get_lock_assign_def returning_def
      write_through_def static_teardown_def singleton_wrapper_dtor_def declare_static_t_def
      dest!: get_mutable_instance_Inr get_const_instance_Inr instance_init_Inr
      split: sum.splits option.splits if_splits)

lemma run_untouched:
  "run b ctor cs s = Inr (rs, s') \<Longrightarrow> \<not> (\<exists>c\<in>set cs. touches T c) \<Longrightarrow>
     static_t s T = None \<and> \<not> m_is_destroyed s T \<Longrightarrow>
     static_t s' T = None \<and> \<not> m_is_destroyed s' T"
proof (induction cs arbitrary: s rs)
  case Nil
  then show ?case by simp
next
  case (Cons c cs)
  from Cons.prems(1) obtain r s1 rs1 where
    e: "exec b ctor c s = Inr (r, s1)" and t: "run b ctor cs s1 = Inr (rs1, s')"
    by (auto split: sum.splits)
  from Cons.prems(2) have n: "\<not> touches T c" "\<not> (\<exists>c\<in>set cs. touches T c)" by simp_all
  from exec_untouched [OF e n(1) Cons.prems(3)] Cons.IH [OF t n(2)] show ?case by blast
qed









section \<open>The global gate\<close>

text \<open>
  C6. The gate starts unlocked. \<open>lock\<close> sets it and \<open>unlock\<close> clears it, from
  any state and without a way to fail; doing either twice is doing it once, and
  the later of two toggles decides. \<open>is_locked\<close> reads the gate and leaves the
  statics as they are. The gate is one boolean for the load unit and not one for
  each type: locked, it stops the mutable accessor of every type \<open>T\<close> in a build
  with assertions, and unlocked it stops none of them.
\<close>

theorem gate_toggles:
  "\<not> is_locked (startup :: ('ty, 'v) statics)
   \<and> exec b ctor Call_lock s = Inr (Ret_void, lock s) \<and> is_locked (lock s)
   \<and> exec b ctor Call_unlock s = Inr (Ret_void, unlock s) \<and> \<not> is_locked (unlock s)
   \<and> lock (lock s) = lock s \<and> unlock (unlock s) = unlock s
   \<and> lock (unlock s) = lock s \<and> unlock (lock s) = unlock s
   \<and> exec b ctor Call_is_locked s = Inr (Ret_bool (is_locked s), s)
   \<and> get_mutable_instance Debug ctor T (lock s) = Inl (Assertion_failed not_locked_expr)
   \<and> get_mutable_instance Debug ctor T (unlock s) = get_instance Debug ctor T (unlock s)"
  by (simp add: startup_def is_locked_def get_lock_def lock_def unlock_def get_lock_assign_def
      get_mutable_instance_def BOOST_ASSERT_def)

text \<open>
  C10. \<open>lock\<close> and \<open>unlock\<close> write the gate and nothing else: for every type
  \<open>T\<close> the object in \<^verbatim>\<open>t\<close> (constructed or not), the number of constructions,
  \<^verbatim>\<open>m_is_destroyed\<close> and the binding of \<^verbatim>\<open>instance\<close> are what they were, and
  putting the gate back gives back the state.
\<close>

theorem lock_unlock_frame:
  "static_t (lock s) T = static_t s T \<and> static_t (unlock s) T = static_t s T
   \<and> m_is_destroyed (lock s) T = m_is_destroyed s T
   \<and> m_is_destroyed (unlock s) T = m_is_destroyed s T
   \<and> is_destroyed T (lock s) = is_destroyed T s \<and> is_destroyed T (unlock s) = is_destroyed T s
   \<and> constructions (lock s) T = constructions s T
   \<and> constructions (unlock s) T = constructions s T
   \<and> instance_ref (lock s) T = instance_ref s T \<and> instance_ref (unlock s) T = instance_ref s T
   \<and> (lock s)\<lparr>lock_gate := lock_gate s\<rparr> = s \<and> (unlock s)\<lparr>lock_gate := lock_gate s\<rparr> = s"
  by (simp add: lock_def unlock_def get_lock_assign_def is_destroyed_def)

text \<open>
  C1. Gate enforcement. In a build that compiles \<^verbatim>\<open>BOOST_ASSERT\<close> in, a call of
  \<^verbatim>\<open>get_mutable_instance()\<close> for any type while the gate is locked, in particular
  right after \<open>lock\<close>, is the fatal stop of the assertion \<^verbatim>\<open>! is_locked()\<close>.
  \<^verbatim>\<open>get_const_instance()\<close> never fails that assertion, in either build and
  whatever the gate: setting the gate to any value \<open>g\<close> beforehand changes
  neither whether the call returns nor what it returns. The one stop a const
  call can reach is the assertion of \<^verbatim>\<open>get_instance()\<close> on a destroyed
  wrapper, which does not look at the gate.
\<close>

theorem gate_enforcement:
  "(is_locked s \<longrightarrow>
      get_mutable_instance Debug ctor T s = Inl (Assertion_failed not_locked_expr))
   \<and> get_mutable_instance Debug ctor T (lock s) = Inl (Assertion_failed not_locked_expr)
   \<and> get_const_instance b ctor T s \<noteq> Inl (Assertion_failed not_locked_expr)
   \<and> get_const_instance b ctor T (s\<lparr>lock_gate := g\<rparr>) =
       map_sum id (\<lambda>(r, s'). (r, s'\<lparr>lock_gate := g\<rparr>)) (get_const_instance b ctor T s)
   \<and> (\<exists>e. get_const_instance b ctor T s = Inl e) = (b = Debug \<and> is_destroyed T s)"
  by (simp add: get_mutable_instance_def get_const_instance_def get_instance_eq BOOST_ASSERT_def
      is_locked_def get_lock_def lock_def get_lock_assign_def is_destroyed_def
      declare_static_t_set_gate)

theorem gate_enforcement_witness:
  "is_locked (lock (startup :: (nat, int) statics))
   \<and> get_mutable_instance Debug Counter 0 (lock startup)
       = Inl (Assertion_failed not_locked_expr)"
proof -
  have h: "is_locked (lock (startup :: (nat, int) statics))"
    by (simp add: is_locked_def get_lock_def lock_def get_lock_assign_def)
  from gate_enforcement [where s = "lock startup" and ctor = Counter and T = 0] h
  show ?thesis by blast
qed

section \<open>The instance and its construction\<close>

text \<open>
  C2. Uniqueness. Take any two calls for a type \<open>T\<close>, each of them
  \<^verbatim>\<open>get_mutable_instance()\<close> or \<^verbatim>\<open>get_const_instance()\<close>, that return in states of
  one load unit. They return the same reference, the address of the static \<^verbatim>\<open>t\<close>
  of \<open>T\<close>, which holds an object once the first has returned. When the second
  call comes after the first, whatever events lie between them, it finds that
  object and changes nothing: it does not build another.
\<close>

theorem instance_identity:
  assumes "acc1 \<in> {get_mutable_instance, get_const_instance}"
    and "acc2 \<in> {get_mutable_instance, get_const_instance}"
    and "acc1 b ctor T s = Inr (r1, s1)"
    and "acc2 b' ctor' T s2 = Inr (r2, s3)"
  shows "r1 = r2 \<and> r1 = Static_t T \<and> static_t s1 T \<noteq> None
    \<and> (run b ctor cs s1 = Inr (rs, s2) \<longrightarrow> s3 = s2)"
proof -
  from assms(1,3) have 1: "r1 = Static_t T" "s1 = declare_static_t ctor T s"
    by (auto dest: get_mutable_instance_Inr get_const_instance_Inr)
  from assms(2,4) have 2: "r2 = Static_t T" "s3 = declare_static_t ctor' T s2"
    by (auto dest: get_mutable_instance_Inr get_const_instance_Inr)
  from 1 have c: "static_t s1 T \<noteq> None" by (simp add: declare_static_t_Some)
  have "s3 = s2" if "run b ctor cs s1 = Inr (rs, s2)"
    using run_keeps_object [OF that c] 2 by (simp add: declare_static_t_again)
  with 1 2 c show ?thesis by simp
qed

theorem instance_identity_witness:
  "get_mutable_instance Debug Counter 0 startup = Inr (Static_t 0, accessed)
   \<and> run Debug Counter [Call_lock, Write_through 0 3] accessed
       = Inr ([Ret_void, Ret_void], write_through 0 3 (lock accessed))
   \<and> get_const_instance Debug Counter 0 (write_through 0 3 (lock accessed))
       = Inr (Static_t 0, write_through 0 3 (lock accessed))
   \<and> static_t accessed 0 \<noteq> None"
proof -
  have 1: "get_mutable_instance Debug Counter 0 startup = Inr (Static_t 0, accessed)"
    by (simp add: get_mutable_instance_def get_instance_eq BOOST_ASSERT_def is_locked_def
        get_lock_def startup_def accessed_def declare_static_t_def Counter_def)
  have 2: "run Debug Counter [Call_lock, Write_through 0 3] accessed
       = Inr ([Ret_void, Ret_void], write_through 0 3 (lock accessed))"
    by simp
  have 3: "get_const_instance Debug Counter 0 (write_through 0 3 (lock accessed))
       = Inr (Static_t 0, write_through 0 3 (lock accessed))"
    by (simp add: get_const_instance_def get_instance_eq accessed_def write_through_def
        lock_def get_lock_assign_def declare_static_t_def)
  from instance_identity [where ?acc1.0 = get_mutable_instance and ?acc2.0 = get_const_instance,
      OF _ _ 1 3, where cs = "[Call_lock, Write_through 0 3]"] 1 2 3
  show ?thesis by simp
qed

text \<open>
  C4. Lazy construction. In every execution of a load unit from its start, in
  either build, the constructor of \<open>T\<close> has run once if some event so far
  reached \<^verbatim>\<open>get_instance()\<close> of \<open>T\<close> (an accessor call, or the initialisation of
  \<^verbatim>\<open>instance\<close>) and not at all otherwise, and \<^verbatim>\<open>t\<close> holds an object in exactly
  the first case. The initialisation of \<^verbatim>\<open>instance\<close> after such an event
  constructs nothing and leaves every object as it is.
\<close>

theorem constructed_exactly_once:
  assumes "run b ctor cs startup = Inr (rs, s)"
  shows "constructions s T = (if \<exists>c\<in>set cs. touches T c then 1 else 0)
    \<and> (static_t s T = None) = (\<not> (\<exists>c\<in>set cs. touches T c))
    \<and> (instance_init b ctor T s = Inr s' \<and> (\<exists>c\<in>set cs. touches T c) \<longrightarrow>
         constructions s' = constructions s \<and> static_t s' = static_t s)"
proof -
  have "counted T (startup :: ('a, 'b) statics)"
    by (simp add: counted_def startup_def)
  from run_counted [OF assms this]
  have 1: "counted T s" "(static_t s T = None) = (\<not> (\<exists>c\<in>set cs. touches T c))"
    by (simp_all add: startup_def)
  have "constructions s' = constructions s \<and> static_t s' = static_t s"
    if "instance_init b ctor T s = Inr s'" "\<exists>c\<in>set cs. touches T c"
    using instance_init_Inr [OF that(1)] that(2) 1(2) by (simp add: declare_static_t_again)
  with 1 show ?thesis by (auto simp: counted_def)
qed

theorem constructed_exactly_once_witness:
  "run Debug Counter [Call_get_const_instance 0, Call_get_mutable_instance 0] startup
     = Inr ([Ret_ref (Static_t 0), Ret_ref (Static_t 0)], accessed)
   \<and> instance_init Debug Counter 0 accessed
       = Inr (accessed\<lparr>instance_ref := (instance_ref accessed)(0 \<mapsto> Static_t 0)\<rparr>)
   \<and> constructions accessed 0 = 1
   \<and> constructions (accessed\<lparr>instance_ref := (instance_ref accessed)(0 \<mapsto> Static_t 0)\<rparr>)
       = constructions accessed"
proof -
  have 1: "run Debug Counter [Call_get_const_instance 0, Call_get_mutable_instance 0] startup
     = Inr ([Ret_ref (Static_t 0), Ret_ref (Static_t 0)], accessed)"
    by (simp add: returning_def get_mutable_instance_def get_const_instance_def get_instance_eq
        BOOST_ASSERT_def is_locked_def get_lock_def startup_def accessed_def
        declare_static_t_def Counter_def)
  have 2: "instance_init Debug Counter 0 accessed
       = Inr (accessed\<lparr>instance_ref := (instance_ref accessed)(0 \<mapsto> Static_t 0)\<rparr>)"
    by (simp add: instance_init_def get_instance_eq accessed_def declare_static_t_def)
  have 3: "\<exists>c\<in>set [Call_get_const_instance 0, Call_get_mutable_instance (0::nat)
      :: (nat, int) event]. touches 0 c"
    by simp
  from constructed_exactly_once [OF 1, where T = 0
      and s' = "accessed\<lparr>instance_ref := (instance_ref accessed)(0 \<mapsto> Static_t 0)\<rparr>"] 1 2 3
  show ?thesis by simp
qed

section \<open>Destruction tracking\<close>

text \<open>
  C3. Destruction monotonicity. The flag of every type is false at the start,
  and in an execution from the start without the teardown of \<open>T\<close> it is still
  false and every call of \<^verbatim>\<open>is_destroyed()\<close> for \<open>T\<close> has answered false. One
  event changes the flag only if it is the teardown of \<open>T\<close> running the
  destructor of the wrapper, and then it sets it. Once that destructor has run
  the flag is true, and it is true after any further events, every call of
  \<^verbatim>\<open>is_destroyed()\<close> among them answering true.
\<close>

theorem destroyed_flag_one_shot:
  "\<not> is_destroyed T (startup :: ('ty, 'v) statics)
   \<and> (run b ctor cs (startup :: ('ty, 'v) statics) = Inr (rs, s1) \<and> Teardown T \<notin> set cs \<longrightarrow>
        \<not> is_destroyed T s1 \<and> set (answers T cs rs) \<subseteq> {Ret_bool False})
   \<and> (exec b ctor c s = Inr (r, s') \<and> is_destroyed T s' \<noteq> is_destroyed T s \<longrightarrow>
        c = Teardown T \<and> s' = singleton_wrapper_dtor T s \<and> is_destroyed T s')
   \<and> is_destroyed T (singleton_wrapper_dtor T s)
   \<and> (run b ctor cs' (singleton_wrapper_dtor T s) = Inr (rs', s2) \<longrightarrow>
        is_destroyed T s2 \<and> set (answers T cs' rs') \<subseteq> {Ret_bool True})"
proof -
  have a: "\<not> is_destroyed T (startup :: ('ty, 'v) statics)"
    by (simp add: is_destroyed_def startup_def)
  have b: "run b ctor cs (startup :: ('ty, 'v) statics) = Inr (rs, s1) \<and> Teardown T \<notin> set cs \<longrightarrow>
        \<not> is_destroyed T s1 \<and> set (answers T cs rs) \<subseteq> {Ret_bool False}"
    using run_flag_stays_clear [of b ctor cs startup rs s1 T] a
    by (simp add: is_destroyed_def)
  have c: "exec b ctor c s = Inr (r, s') \<and> is_destroyed T s' \<noteq> is_destroyed T s \<longrightarrow>
        c = Teardown T \<and> s' = singleton_wrapper_dtor T s \<and> is_destroyed T s'"
    using exec_flag [of b ctor c s r s' T]
    by (auto simp: is_destroyed_def static_teardown_def split: option.splits)
  have d: "is_destroyed T (singleton_wrapper_dtor T s)"
    by (simp add: is_destroyed_def singleton_wrapper_dtor_def)
  have e: "run b ctor cs' (singleton_wrapper_dtor T s) = Inr (rs', s2) \<longrightarrow>
        is_destroyed T s2 \<and> set (answers T cs' rs') \<subseteq> {Ret_bool True}"
    using run_keeps_flag [of b ctor cs' "singleton_wrapper_dtor T s" rs' s2 T] d
    by (simp add: is_destroyed_def)
  from a b c d e show ?thesis by blast
qed

theorem destroyed_flag_one_shot_witness:
  "run Debug Counter [Call_get_const_instance 0, Call_is_destroyed 0] startup
     = Inr ([Ret_ref (Static_t 0), Ret_bool False], accessed)
   \<and> Teardown 0 \<notin> set [Call_get_const_instance 0, Call_is_destroyed (0::nat) :: (nat, int) event]
   \<and> exec Debug Counter (Teardown 0) accessed = Inr (Ret_void, torn_down)
   \<and> is_destroyed 0 torn_down \<noteq> is_destroyed 0 accessed
   \<and> torn_down = singleton_wrapper_dtor 0 accessed
   \<and> run Debug Counter [Call_unlock, Call_is_destroyed 0] (singleton_wrapper_dtor 0 accessed)
       = Inr ([Ret_void, Ret_bool True], torn_down)
   \<and> is_destroyed 0 torn_down
   \<and> set (answers 0 [Call_unlock, Call_is_destroyed (0::nat) :: (nat, int) event]
        [Ret_void, Ret_bool True]) \<subseteq> {Ret_bool True}"
proof -
  have 1: "run Debug Counter [Call_get_const_instance 0, Call_is_destroyed 0] startup
     = Inr ([Ret_ref (Static_t 0), Ret_bool False], accessed)"
    by (simp add: returning_def get_const_instance_def get_instance_eq is_destroyed_def
        startup_def accessed_def declare_static_t_def Counter_def)
  have 2: "Teardown 0 \<notin> set [Call_get_const_instance 0, Call_is_destroyed (0::nat)
      :: (nat, int) event]"
    by simp
  have 3: "exec Debug Counter (Teardown 0) accessed = Inr (Ret_void, torn_down)"
    by (simp add: static_teardown_def singleton_wrapper_dtor_def accessed_def torn_down_def)
  have 4: "is_destroyed 0 torn_down \<noteq> is_destroyed 0 accessed"
    by (simp add: is_destroyed_def accessed_def torn_down_def)
  have 5: "run Debug Counter [Call_unlock, Call_is_destroyed 0] (singleton_wrapper_dtor 0 accessed)
       = Inr ([Ret_void, Ret_bool True], torn_down)"
    by (simp add: singleton_wrapper_dtor_def accessed_def torn_down_def unlock_def
        get_lock_assign_def is_destroyed_def)
  from destroyed_flag_one_shot [where b = Debug and ctor = Counter and T = 0
      and cs = "[Call_get_const_instance 0, Call_is_destroyed 0]"
      and rs = "[Ret_ref (Static_t 0), Ret_bool False]" and ?s1.0 = accessed
      and c = "Teardown 0" and s = accessed and r = Ret_void and s' = torn_down
      and cs' = "[Call_unlock, Call_is_destroyed 0]" and rs' = "[Ret_void, Ret_bool True]"
      and ?s2.0 = torn_down] 1 2 3 4 5
  show ?thesis by simp
qed

text \<open>
  C9. \<^verbatim>\<open>is_destroyed()\<close> returns the flag and leaves the statics as they are, in
  any state. For a type that no event of an execution from the start has
  accessed, \<^verbatim>\<open>t\<close> is unconstructed, a call answers false and changes nothing,
  and so does any number of calls in a row.
\<close>

theorem is_destroyed_constructs_nothing:
  "exec b ctor (Call_is_destroyed T) s = Inr (Ret_bool (m_is_destroyed s T), s)
   \<and> (run b ctor cs startup = Inr (rs, s1) \<and> \<not> (\<exists>c\<in>set cs. touches T c) \<longrightarrow>
        static_t s1 T = None
        \<and> exec b ctor (Call_is_destroyed T) s1 = Inr (Ret_bool False, s1)
        \<and> run b ctor (cs @ replicate n (Call_is_destroyed T)) startup
            = Inr (rs @ replicate n (Ret_bool False), s1))"
proof -
  have a: "exec b ctor (Call_is_destroyed T) s = Inr (Ret_bool (m_is_destroyed s T), s)" for s :: "('a, 'b) statics"
    by (simp add: is_destroyed_def)
  have rep: "run b ctor (replicate n (Call_is_destroyed T)) s' = Inr (replicate n (Ret_bool False), s')"
    if "\<not> m_is_destroyed s' T" for s' :: "('a, 'b) statics"
    using that by (induction n) (simp_all add: is_destroyed_def)
  have app: "run b ctor (xs @ ys) s0 = Inr (rs0 @ rs1, s')"
    if "run b ctor xs s0 = Inr (rs0, s'')" "run b ctor ys s'' = Inr (rs1, s')"
    for xs ys rs0 rs1 and s0 s' s'' :: "('a, 'b) statics"
    using that by (induction xs arbitrary: s0 rs0) (auto split: sum.splits)
  have c: "static_t s1 T = None
        \<and> exec b ctor (Call_is_destroyed T) s1 = Inr (Ret_bool False, s1)
        \<and> run b ctor (cs @ replicate n (Call_is_destroyed T)) startup
            = Inr (rs @ replicate n (Ret_bool False), s1)"
    if 1: "run b ctor cs startup = Inr (rs, s1)" and 2: "\<not> (\<exists>c\<in>set cs. touches T c)"
  proof -
    have "static_t (startup :: ('a, 'b) statics) T = None \<and> \<not> m_is_destroyed (startup :: ('a, 'b) statics) T"
      by (simp add: startup_def)
    from run_untouched [OF 1 2 this] have u: "static_t s1 T = None" "\<not> m_is_destroyed s1 T"
      by simp_all
    from app [OF 1 rep [OF u(2)]] u a [of s1] show ?thesis by simp
  qed
  from a c show ?thesis by blast
qed

theorem is_destroyed_constructs_nothing_witness:
  "run Debug Counter [Call_lock, Teardown 1] startup
     = Inr ([Ret_void, Ret_void], lock startup)
   \<and> \<not> (\<exists>c\<in>set [Call_lock, Teardown (1::nat) :: (nat, int) event]. touches 1 c)
   \<and> static_t (lock (startup :: (nat, int) statics)) 1 = None
   \<and> exec Debug Counter (Call_is_destroyed 1) (lock startup)
       = Inr (Ret_bool False, lock startup)
   \<and> run Debug Counter ([Call_lock, Teardown 1] @ replicate 2 (Call_is_destroyed 1)) startup
       = Inr ([Ret_void, Ret_void] @ replicate 2 (Ret_bool False), lock startup)"
proof -
  have 1: "run Debug Counter [Call_lock, Teardown 1] startup
     = Inr ([Ret_void, Ret_void], lock startup)"
    by (simp add: static_teardown_def lock_def get_lock_assign_def startup_def)
  have 2: "\<not> (\<exists>c\<in>set [Call_lock, Teardown (1::nat) :: (nat, int) event]. touches 1 c)"
    by simp
  from is_destroyed_constructs_nothing [where b = Debug and ctor = Counter and T = 1
      and cs = "[Call_lock, Teardown 1]" and rs = "[Ret_void, Ret_void]"
      and ?s1.0 = "lock startup" and n = 2] 1 2
  show ?thesis by blast
qed

text \<open>
  C5, as the code has it. In a build with assertions \<^verbatim>\<open>get_instance()\<close> evaluates
  \<^verbatim>\<open>BOOST_ASSERT(! m_is_destroyed)\<close> on every accessor call: the const accessor
  stops on that assertion exactly when the wrapper of \<open>T\<close> is destroyed, the
  mutable one exactly when it is destroyed and the gate is open (a locked gate
  stops it first), and no construction is involved, since passing the
  declaration of \<^verbatim>\<open>t\<close> a second time constructs nothing. In a build without
  assertions both accessors return the reference in every state, so there only
  a caller that asks \<^verbatim>\<open>is_destroyed()\<close> first learns of the destruction.
\<close>

theorem use_after_destroy_detection:
  "(get_const_instance Debug ctor T s = Inl (Assertion_failed not_destroyed_expr)) = is_destroyed T s
   \<and> (get_mutable_instance Debug ctor T s = Inl (Assertion_failed not_destroyed_expr))
        = (is_destroyed T s \<and> \<not> is_locked s)
   \<and> (\<exists>e. get_mutable_instance Debug ctor T s = Inl e) = (is_destroyed T s \<or> is_locked s)
   \<and> declare_static_t ctor T (declare_static_t ctor T s) = declare_static_t ctor T s
   \<and> get_const_instance Release ctor T s = Inr (Static_t T, declare_static_t ctor T s)
   \<and> get_mutable_instance Release ctor T s = Inr (Static_t T, declare_static_t ctor T s)"
  by (auto simp: get_mutable_instance_def get_const_instance_def get_instance_eq BOOST_ASSERT_def
      is_destroyed_def declare_static_t_again declare_static_t_Some)

text \<open>
  The claim C5 as the spec words it, detection only where a destroyed wrapper is
  constructed again, fails in the execution that accesses type \<open>0\<close> once and
  tears it down: the object is there, a further accessor call would construct
  nothing, and both accessors stop on the assertion.
\<close>

theorem use_after_destroy_counterexample:
  "run Debug Counter [Call_get_const_instance 0, Teardown 0] startup
     = Inr ([Ret_ref (Static_t 0), Ret_void], torn_down)
   \<and> declare_static_t Counter 0 torn_down = torn_down
   \<and> get_const_instance Debug Counter 0 torn_down = Inl (Assertion_failed not_destroyed_expr)
   \<and> get_mutable_instance Debug Counter 0 torn_down
       = Inl (Assertion_failed not_destroyed_expr)"
  by (simp add: torn_down_def startup_def Counter_def get_const_instance_def
      get_mutable_instance_def get_instance_eq returning_def static_teardown_def
      singleton_wrapper_dtor_def declare_static_t_def BOOST_ASSERT_def is_locked_def get_lock_def)

text \<open>
  C8. \<^verbatim>\<open>get_const_instance()\<close> is \<^verbatim>\<open>get_instance()\<close>, assertion included: its
  result is decided by \<^verbatim>\<open>BOOST_ASSERT(! m_is_destroyed)\<close>. With assertions
  compiled in, a const call on a destroyed wrapper is the fatal stop of that
  assertion; so is every const call in an execution that follows the teardown
  of a wrapper which a const call had returned before.
\<close>

theorem const_access_checks_destroyed:
  "get_const_instance b ctor T s =
     (case BOOST_ASSERT b (\<not> is_destroyed T s) not_destroyed_expr of
        Inl e \<Rightarrow> Inl e
      | Inr _ \<Rightarrow> Inr (Static_t T, declare_static_t ctor T s))
   \<and> (is_destroyed T s \<longrightarrow>
        get_const_instance Debug ctor T s = Inl (Assertion_failed not_destroyed_expr))
   \<and> (get_const_instance Debug ctor T s = Inr (r, s1)
        \<and> run Debug ctor cs (static_teardown T s1) = Inr (rs, s2) \<longrightarrow>
        get_const_instance Debug ctor T s2 = Inl (Assertion_failed not_destroyed_expr))"
proof -
  have a: "get_const_instance b ctor T s =
     (case BOOST_ASSERT b (\<not> is_destroyed T s) not_destroyed_expr of
        Inl e \<Rightarrow> Inl e
      | Inr _ \<Rightarrow> Inr (Static_t T, declare_static_t ctor T s))"
    by (simp add: get_const_instance_def get_instance_eq BOOST_ASSERT_def is_destroyed_def)
  have b: "get_const_instance Debug ctor T s' = Inl (Assertion_failed not_destroyed_expr)"
    if "m_is_destroyed s' T" for s'
    using that by (simp add: get_const_instance_def get_instance_eq)
  have c: "get_const_instance Debug ctor T s2 = Inl (Assertion_failed not_destroyed_expr)"
    if 1: "get_const_instance Debug ctor T s = Inr (r, s1)"
      and 2: "run Debug ctor cs (static_teardown T s1) = Inr (rs, s2)"
  proof -
    from get_const_instance_Inr [OF 1] have "static_t s1 T \<noteq> None"
      by (simp add: declare_static_t_Some)
    then have "m_is_destroyed (static_teardown T s1) T"
      by (auto simp: static_teardown_def singleton_wrapper_dtor_def)
    from run_keeps_flag [OF 2 this] show ?thesis by (simp add: b)
  qed
  from a b c show ?thesis by (simp add: is_destroyed_def)
qed

theorem const_access_checks_destroyed_witness:
  "is_destroyed 0 torn_down
   \<and> get_const_instance Debug Counter 0 startup = Inr (Static_t 0, accessed)
   \<and> run Debug Counter [Call_lock] (static_teardown 0 accessed)
       = Inr ([Ret_void], lock torn_down)
   \<and> get_const_instance Debug Counter 0 torn_down = Inl (Assertion_failed not_destroyed_expr)
   \<and> get_const_instance Debug Counter 0 (lock torn_down)
       = Inl (Assertion_failed not_destroyed_expr)"
proof -
  have 1: "is_destroyed 0 torn_down"
    by (simp add: is_destroyed_def torn_down_def)
  have 2: "get_const_instance Debug Counter 0 startup = Inr (Static_t 0, accessed)"
    by (simp add: get_const_instance_def get_instance_eq startup_def accessed_def
        declare_static_t_def Counter_def)
  have 3: "run Debug Counter [Call_lock] (static_teardown 0 accessed)
       = Inr ([Ret_void], lock torn_down)"
    by (simp add: static_teardown_def singleton_wrapper_dtor_def accessed_def torn_down_def)
  from const_access_checks_destroyed [where b = Debug and ctor = Counter and T = 0
      and s = torn_down]
    const_access_checks_destroyed [where b = Debug and ctor = Counter and T = 0
      and s = startup and r = "Static_t 0" and ?s1.0 = accessed and cs = "[Call_lock]"
      and rs = "[Ret_void]" and ?s2.0 = "lock torn_down"] 1 2 3
  show ?thesis by blast
qed

section \<open>The variant with a mutex\<close>




end
